theory Spec2Isabelle
  imports Complex_Main
begin

section \<open>Strings and substring search\<close>

text \<open>
  A Python \<open>str\<close> is a sequence of Unicode code points; it is modelled as the list of
  those code points. The keyword tables of \<open>extract.py\<close> mix Arabic and English
  phrases: an ASCII phrase is written through \<open>asc\<close>, an Arabic one as its code points.
  Role, intent and status tags are plain ASCII Python strings and are kept as \<open>string\<close>.
\<close>

type_synonym pystr = "nat list"

definition asc :: "string \<Rightarrow> pystr" where
  "asc s = map of_char s"

text \<open>\<open>prefix_of k s\<close>: the string \<open>s\<close> starts with \<open>k\<close>.\<close>

fun prefix_of :: "'a list \<Rightarrow> 'a list \<Rightarrow> bool" where
  "prefix_of [] s = True"
| "prefix_of (k # ks) [] = False"
| "prefix_of (k # ks) (c # cs) = (k = c \<and> prefix_of ks cs)"

text \<open>Python's \<open>k in s\<close> on strings: \<open>k\<close> occurs in \<open>s\<close> as a contiguous substring.\<close>

fun str_in :: "'a list \<Rightarrow> 'a list \<Rightarrow> bool" where
  "str_in k [] = (k = [])"
| "str_in k (c # cs) = (prefix_of k (c # cs) \<or> str_in k cs)"

text \<open>\<open>any(kw in content for kw in keywords)\<close>.\<close>

definition any_in :: "'a list list \<Rightarrow> 'a list \<Rightarrow> bool" where
  "any_in keywords content = list_ex (\<lambda>kw. str_in kw content) keywords"

section \<open>Keyword tables (\<open>_init_patterns\<close>)\<close>

text \<open>
  Each entry of \<open>self.patterns\<close> that the classifier reads is a dictionary with the two
  keys \<open>'arabic'\<close> and \<open>'english'\<close>; it is modelled as the pair of the two lists.
\<close>

type_synonym keyword_dict = "pystr list \<times> pystr list"

definition acknowledgment_arabic :: "pystr list" where
  \<comment> \<open>patterns['acknowledgment']['arabic']\<close>
  "acknowledgment_arabic =
   [[1578, 1605, 1575, 1605], [1576, 1575, 1588, 1585], [1575, 1608, 1603, 1610],
    [1581, 1575, 1590, 1585], [1601, 1607, 1605, 1578], [1608, 1589, 1604],
    [1607, 1587, 1607, 32, 1575, 1580, 1610, 1603],
    [1607, 1587, 1607, 32, 1606, 1580, 1610, 1603], [1588, 1608, 1601, 1607],
    [1585, 1575, 1581, 32, 1575, 1588, 1608, 1601], [1583, 1604, 1604],
    [1607, 1587, 1607, 32, 1575, 1588, 1608, 1601, 1607, 1575],
    [1607, 1587, 1607, 32, 1575, 1580, 1610, 1603, 1607]]"

definition acknowledgment_english :: "pystr list" where
  \<comment> \<open>patterns['acknowledgment']['english']\<close>
  "acknowledgment_english =
   [asc ''ok'', asc ''okay'', asc ''got it'', asc ''noted'', asc ''checking'',
    asc ''will check'', asc ''looking into'']"

definition request_action_arabic :: "pystr list" where
  \<comment> \<open>patterns['request_action']['arabic']\<close>
  "request_action_arabic =
   [[1605, 1605, 1603, 1606], [1576, 1604, 1575, 1586, 1581, 1605, 1607],
    [1575, 1584, 1575, 32, 1605, 1605, 1603, 1606], [1578, 1602, 1583, 1585],
    [1604, 1608, 32, 1587, 1605, 1581, 1578], [1578, 1580, 1610, 1603],
    [1578, 1588, 1608, 1601], [1578, 1593, 1583, 1604],
    [1578, 1605, 1587, 1581, 1607, 1575], [1578, 1604, 1594, 1608, 1607, 1575]]"

definition request_action_english :: "pystr list" where
  \<comment> \<open>patterns['request_action']['english']\<close>
  "request_action_english =
   [asc ''can you'', asc ''could you'', asc ''please'', asc ''would you'', asc ''kindly'']"

definition follow_up_arabic :: "pystr list" where
  \<comment> \<open>patterns['follow_up']['arabic']\<close>
  "follow_up_arabic =
   [[1588, 1604, 1608, 1606, 1603], [1608, 1610, 1606, 32, 1608, 1589, 1604],
    [1588, 1606, 1608, 32, 1589, 1575, 1585], [1603, 1605, 1604, 1606], [1604, 1587, 1575],
    [1576, 1593, 1583], [1588, 1608, 1601, 1578], [1575, 1606, 1578, 32, 1584, 1607, 1576],
    [1607, 1587, 1607]]"

definition follow_up_english :: "pystr list" where
  \<comment> \<open>patterns['follow_up']['english']\<close>
  "follow_up_english =
   [asc ''any update'', asc ''status'', asc ''what about'', asc ''still'', asc ''yet'']"

definition acknowledgment :: keyword_dict where
  "acknowledgment = (acknowledgment_arabic, acknowledgment_english)"

definition request_action :: keyword_dict where
  "request_action = (request_action_arabic, request_action_english)"

definition follow_up :: keyword_dict where
  "follow_up = (follow_up_arabic, follow_up_english)"

text \<open>
  \<open>_contains_keywords\<close>: the Arabic list is searched first, then the English one, and the
  first keyword found in \<open>content\<close> answers \<open>True\<close>.
\<close>

definition contains_keywords :: "pystr \<Rightarrow> keyword_dict \<Rightarrow> bool" where
  "contains_keywords content keyword_dict =
     (any_in (fst keyword_dict) content \<or> any_in (snd keyword_dict) content)"

section \<open>Message intent classifier (\<open>_classify_message_type\<close>)\<close>

definition issue_indicators :: "pystr list" where
  \<comment> \<open>the local list of the customer branch\<close>
  "issue_indicators =
   [[1591, 1601, 1578], [1591, 1575, 1601, 1610], [1602, 1591, 1593],
    [1605, 1588, 1603, 1604, 1577], [1576, 1608, 1585, 1578], asc ''down'', asc ''error'',
    [1605, 1575, 1580, 1575, 1576, 1607], [1605, 1580, 1575, 1576, 1607],
    [1605, 1575, 1580, 1575, 1576, 1607, 1575], [1605, 1580, 1575, 1576, 1607, 1575],
    [1591, 1575, 1601, 1610, 1607],
    [1576, 1608, 1585, 1578, 1575, 1578, 32, 1591, 1601, 1578],
    [1576, 1608, 1585, 1578, 1575, 1578, 32, 1591, 1575, 1601, 1610],
    [1602, 1591, 1608, 1593, 1575, 1578], [1604, 1591, 1588]]"

definition resolution_indicators :: "pystr list" where
  \<comment> \<open>the local list of the support branch\<close>
  "resolution_indicators =
   [[1578, 1605, 1575, 1605], asc ''done'', asc ''recheck'', asc ''ok'', asc ''solved'',
    asc ''fixed'', [1593, 1575, 1588, 1578, 32, 1575, 1610, 1583, 1603],
    [1608, 1575, 1610, 1583, 1603], [1578, 1583, 1604, 1604],
    [1605, 1605, 1606, 1608, 1606], [1588, 1603, 1585, 1575], asc ''thank you'',
    asc ''welcome'', [1603, 1605, 1604, 1606], [1575, 1606, 1578, 1607, 1609]]"

text \<open>
  \<open>str.lower\<close> belongs to the Python runtime (full Unicode case mapping); the classifier
  takes it as the parameter \<open>lower\<close>. The source tests its two local lists against
  \<open>content.lower()\<close> and passes the unchanged \<open>content\<close> to \<open>_contains_keywords\<close>.
\<close>

definition classify_message_type ::
  "(pystr \<Rightarrow> pystr) \<Rightarrow> string \<Rightarrow> pystr \<Rightarrow> bool \<Rightarrow> string" where
  "classify_message_type lower sender_type content has_ticket =
     (let content_lower = lower content in
      if sender_type = ''customer'' then
        (if any_in issue_indicators content_lower then ''issue_report''
         else if has_ticket then ''issue_report''
         else if contains_keywords content follow_up then ''follow_up''
         else ''general'')
      else if sender_type = ''support'' then
        (if any_in resolution_indicators content_lower then ''resolution''
         else if contains_keywords content acknowledgment then ''acknowledgment''
         else if contains_keywords content request_action then ''request_info''
         else ''response'')
      else ''other'')"

text \<open>ASCII lower-casing of code points, used to run the classifier on ASCII inputs.\<close>

definition ascii_lower :: "pystr \<Rightarrow> pystr" where
  "ascii_lower s = map (\<lambda>c. if 65 \<le> c \<and> c \<le> 90 then c + 32 else c) s"

section \<open>Data model\<close>

text \<open>
  The dataclasses \<open>Message\<close> and \<open>Issue\<close>. A \<open>datetime\<close> is the number of microseconds
  since a fixed origin and a \<open>timedelta\<close> a number of microseconds, both \<open>int\<close>; \<open>None\<close>
  in an \<open>Optional\<close> field is \<open>None\<close>. The two fields of \<open>Issue\<close> whose names \<open>Message\<close>
  already uses are prefixed with \<open>issue_\<close>.
\<close>

record Message =
  timestamp :: int
  sender :: pystr
  sender_type :: string
  content :: pystr
  message_type :: string
  language :: string
  has_ticket_id :: bool
  ticket_ids :: "pystr list"

record Issue =
  issue_id :: string
  issue_ticket_ids :: "pystr list"
  reporter :: pystr
  initial_message :: pystr
  start_time :: int
  end_time :: "int option"
  status :: string
  messages :: "Message list"
  first_response_time :: "int option"
  resolution_time :: "int option"
  total_responses :: nat
  category :: string
  issue_language :: string
  support_participants :: "pystr set"

datatype py_error = IndexError

text \<open>\<open>timedelta(hours=h)\<close> in microseconds.\<close>

definition timedelta_hours :: "int \<Rightarrow> int" where
  "timedelta_hours h = h * 3600000000"

text \<open>
  Truth value of an \<open>Optional[timedelta]\<close> in a condition: \<open>None\<close> is false, and so is
  the zero duration \<open>timedelta(0)\<close>.
\<close>

definition timedelta_truthy :: "int option \<Rightarrow> bool" where
  "timedelta_truthy d = (case d of None \<Rightarrow> False | Some v \<Rightarrow> v \<noteq> 0)"

section \<open>Issue categories (\<open>_categorize_issue\<close>)\<close>

definition categories :: "(string \<times> pystr list) list" where
  \<comment> \<open>the dictionary of \<open>_categorize_issue\<close>, in insertion order\<close>
  "categories =
   [(''zabbix_monitoring'',
      [asc ''zabbix'', [1586, 1575, 1576, 1603, 1587],
       [1605, 1575, 1580, 1575, 1576, 1607, 32, 1575, 1604, 1586, 1575, 1576, 1603, 1587],
       [1605, 1580, 1575, 1576, 1607, 1575, 32, 1575, 1604, 1586, 1575, 1576, 1603, 1587]]),
    (''port_down'',
      [asc ''port'', [1576, 1608, 1585, 1578], [1576, 1608, 1585, 1578, 1575, 1578],
       asc ''ports down'', asc ''link down'']),
    (''temperature'',
      [asc ''temperature'', [1581, 1585, 1575, 1585, 1577],
       [1578, 1605, 1576, 1585, 1580, 1585], asc ''trigger'']),
    (''outage'',
      [[1602, 1591, 1593], [1602, 1591, 1608, 1593, 1575, 1578], asc ''down'',
       asc ''offline'', [1591, 1601, 1578], [1605, 1606, 1602, 1591, 1593]]),
    (''configuration'',
      [asc ''edit'', asc ''change'', [1578, 1593, 1583, 1610, 1604], [1593, 1583, 1604],
       asc ''oid'', asc ''class'']),
    (''alarm'',
      [asc ''alarm'', [1575, 1604, 1585, 1605], [1605, 1588, 1603, 1604, 1577], asc ''error''])]"

fun first_category :: "(string \<times> pystr list) list \<Rightarrow> pystr \<Rightarrow> string" where
  "first_category [] content_lower = ''other''"
| "first_category ((cat, keywords) # rest) content_lower =
     (if any_in keywords content_lower then cat else first_category rest content_lower)"

definition categorize_issue :: "(pystr \<Rightarrow> pystr) \<Rightarrow> pystr \<Rightarrow> string" where
  "categorize_issue lower text = first_category categories (lower text)"

section \<open>Issue segmentation (\<open>group_into_issues\<close>)\<close>

text \<open>The identifier \<open>f"ISSUE_{issue_counter:04d}"\<close>.\<close>

fun decimal :: "nat \<Rightarrow> string" where
  "decimal n = (if n < 10 then [char_of (48 + n)]
                else decimal (n div 10) @ [char_of (48 + n mod 10)])"

definition format_04d :: "nat \<Rightarrow> string" where
  "format_04d n = replicate (4 - length (decimal n)) (CHR ''0'') @ decimal n"

definition make_issue_id :: "nat \<Rightarrow> string" where
  "make_issue_id issue_counter = ''ISSUE_'' @ format_04d issue_counter"

text \<open>The \<open>Issue(...)\<close> constructor call, the same at both places that open an issue.\<close>

definition new_issue :: "(pystr \<Rightarrow> pystr) \<Rightarrow> nat \<Rightarrow> Message \<Rightarrow> Issue" where
  "new_issue lower issue_counter msg =
     \<lparr>issue_id = make_issue_id issue_counter,
      issue_ticket_ids = ticket_ids msg,
      reporter = sender msg,
      initial_message = content msg,
      start_time = timestamp msg,
      end_time = None,
      status = ''open'',
      messages = [msg],
      first_response_time = None,
      resolution_time = None,
      total_responses = 0,
      category = categorize_issue lower (content msg),
      issue_language = language msg,
      support_participants = {}\<rparr>"

text \<open>
  The loop state. \<open>current_issue\<close> is either \<open>None\<close> or the object appended last to
  \<open>self.issues\<close> (every assignment to it is followed by \<open>self.issues.append\<close>), and the
  loop mutates no other issue. So the state keeps the current issue apart:
  \<open>self.issues\<close> is \<open>earlier_issues\<close> followed by the current issue, if any.
\<close>

record seg_state =
  earlier_issues :: "Issue list"
  current_issue :: "Issue option"
  issue_counter :: nat

definition issues :: "seg_state \<Rightarrow> Issue list" where
  "issues s = earlier_issues s @ (case current_issue s of None \<Rightarrow> [] | Some c \<Rightarrow> [c])"

text \<open>\<open>issue.messages[-1].timestamp\<close>, which raises \<open>IndexError\<close> on an empty list.\<close>

definition last_timestamp :: "Issue \<Rightarrow> py_error + int" where
  "last_timestamp issue =
     (case messages issue of [] \<Rightarrow> Inl IndexError
      | m # ms \<Rightarrow> Inr (timestamp (last (m # ms))))"

text \<open>Closing the previous issue: only an issue that is still \<open>'open'\<close> is touched.\<close>

definition close_previous :: "Issue \<Rightarrow> py_error + Issue" where
  "close_previous c =
     (if status c = ''open'' then
        (case last_timestamp c of
           Inl e \<Rightarrow> Inl e
         | Inr t \<Rightarrow> Inr (c\<lparr>status := ''pending'', end_time := Some t\<rparr>))
      else Inr c)"

text \<open>Creating the new issue, appending it to \<open>self.issues\<close> and bumping the counter.\<close>

definition open_issue :: "(pystr \<Rightarrow> pystr) \<Rightarrow> seg_state \<Rightarrow> Message \<Rightarrow> seg_state" where
  "open_issue lower s msg =
     \<lparr>earlier_issues = issues s,
      current_issue = Some (new_issue lower (issue_counter s) msg),
      issue_counter = issue_counter s + 1\<rparr>"

definition max_gap :: int where
  "max_gap = timedelta_hours 2"

text \<open>\<open>belongs_to_issue\<close>, with \<open>last_ts\<close> the timestamp of the issue's last message.\<close>

definition belongs_to_issue :: "Issue \<Rightarrow> int \<Rightarrow> Message \<Rightarrow> bool" where
  "belongs_to_issue c last_ts msg =
     (timestamp msg - last_ts \<le> max_gap \<or>
      list_ex (\<lambda>tid. tid \<in> set (ticket_ids msg)) (issue_ticket_ids c) \<or>
      (sender_type msg = ''customer'' \<and> message_type msg \<in> set [''follow_up'', ''general'']))"

text \<open>The block under \<open>if msg.sender_type == 'support'\<close>, statement by statement.\<close>

definition track_support :: "Issue \<Rightarrow> Message \<Rightarrow> Issue" where
  "track_support c msg =
     (let c1 = c\<lparr>support_participants := insert (sender msg) (support_participants c)\<rparr>;
          c2 = (if first_response_time c1 = None \<and>
                   message_type msg \<in> set [''acknowledgment'', ''response'', ''request_info'']
                then c1\<lparr>first_response_time := Some (timestamp msg - start_time c1)\<rparr>
                else c1);
          c3 = (if message_type msg \<in> set [''response'', ''acknowledgment'', ''request_info'']
                then c2\<lparr>total_responses := total_responses c2 + 1\<rparr>
                else c2)
      in if message_type msg = ''resolution''
         then c3\<lparr>status := ''resolved'',
                 end_time := Some (timestamp msg),
                 resolution_time := Some (timestamp msg - start_time c3)\<rparr>
         else c3)"

text \<open>The loop that appends the ticket ids the issue does not list yet.\<close>

definition add_ticket_ids :: "pystr list \<Rightarrow> pystr list \<Rightarrow> pystr list" where
  "add_ticket_ids msg_ids issue_ids =
     fold (\<lambda>tid acc. if tid \<in> set acc then acc else acc @ [tid]) msg_ids issue_ids"

text \<open>The body of \<open>if belongs_to_issue\<close>.\<close>

definition append_message :: "Issue \<Rightarrow> Message \<Rightarrow> Issue" where
  "append_message c msg =
     (let c1 = c\<lparr>messages := messages c @ [msg]\<rparr>;
          c2 = (if sender_type msg = ''support'' then track_support c1 msg else c1)
      in c2\<lparr>issue_ticket_ids := add_ticket_ids (ticket_ids msg) (issue_ticket_ids c2)\<rparr>)"

text \<open>
  One iteration of the loop. Beside the new state it reports which branch ran:
  \<open>Opened\<close> is the branch at the top of the body (new issue on a customer's
  \<open>issue_report\<close>), \<open>Skipped\<close> the case without a current issue, \<open>Appended\<close> the
  \<open>belongs_to_issue\<close> branch, \<open>Reopened\<close> the branch that closes the current issue and
  starts a new one after the continuation test failed, and \<open>Dropped\<close> a message that
  the continuation test rejected and that starts nothing. An \<open>Issue\<close> object is always
  true in a condition, so \<open>if current_issue\<close> only asks whether it is \<open>None\<close>.
\<close>

datatype branch = Opened | Skipped | Appended | Reopened | Dropped

definition step ::
  "(pystr \<Rightarrow> pystr) \<Rightarrow> seg_state \<Rightarrow> Message \<Rightarrow> py_error + (branch \<times> seg_state)" where
  "step lower s msg =
     (if message_type msg = ''issue_report'' \<and> sender_type msg = ''customer'' then
        (case current_issue s of
           None \<Rightarrow> Inr (Opened, open_issue lower s msg)
         | Some c \<Rightarrow>
             (case close_previous c of
                Inl e \<Rightarrow> Inl e
              | Inr c' \<Rightarrow> Inr (Opened, open_issue lower (s\<lparr>current_issue := Some c'\<rparr>) msg)))
      else
        (case current_issue s of
           None \<Rightarrow> Inr (Skipped, s)
         | Some c \<Rightarrow>
             (case last_timestamp c of
                Inl e \<Rightarrow> Inl e
              | Inr last_ts \<Rightarrow>
                  if belongs_to_issue c last_ts msg then
                    Inr (Appended, s\<lparr>current_issue := Some (append_message c msg)\<rparr>)
                  else if sender_type msg = ''customer'' \<and>
                          message_type msg \<in> set [''issue_report'', ''general''] then
                    (case close_previous c of
                       Inl e \<Rightarrow> Inl e
                     | Inr c' \<Rightarrow>
                         Inr (Reopened, open_issue lower (s\<lparr>current_issue := Some c'\<rparr>) msg))
                  else Inr (Dropped, s))))"

text \<open>The \<open>for\<close> loop over \<open>self.messages\<close>; an exception ends it.\<close>

fun run_loop ::
  "(pystr \<Rightarrow> pystr) \<Rightarrow> seg_state \<Rightarrow> Message list \<Rightarrow> py_error + seg_state" where
  "run_loop lower s [] = Inr s"
| "run_loop lower s (msg # rest) =
     (case step lower s msg of
        Inl e \<Rightarrow> Inl e
      | Inr (b, s') \<Rightarrow> run_loop lower s' rest)"

text \<open>The closing loop after the stream: \<open>if issue.first_response_time\<close> is a truth test.\<close>

definition finalize_issue :: "Issue \<Rightarrow> py_error + Issue" where
  "finalize_issue issue =
     (if status issue = ''open'' then
        (case last_timestamp issue of
           Inl e \<Rightarrow> Inl e
         | Inr t \<Rightarrow>
             Inr (issue\<lparr>end_time := Some t,
                        status := (if timedelta_truthy (first_response_time issue)
                                   then ''pending'' else ''no_response'')\<rparr>))
      else Inr issue)"

fun finalize_all :: "Issue list \<Rightarrow> py_error + Issue list" where
  "finalize_all [] = Inr []"
| "finalize_all (issue # rest) =
     (case finalize_issue issue of
        Inl e \<Rightarrow> Inl e
      | Inr issue' \<Rightarrow>
          (case finalize_all rest of Inl e \<Rightarrow> Inl e | Inr rest' \<Rightarrow> Inr (issue' # rest')))"

text \<open>
  \<open>group_into_issues\<close>: \<open>self_issues\<close> is \<open>self.issues\<close> at the call (empty after
  \<open>__init__\<close>), \<open>msgs\<close> is \<open>self.messages\<close>; the result is the final \<open>self.issues\<close>.
\<close>

definition initial_state :: "Issue list \<Rightarrow> seg_state" where
  "initial_state self_issues =
     \<lparr>earlier_issues = self_issues, current_issue = None, issue_counter = 1\<rparr>"

definition group_into_issues ::
  "(pystr \<Rightarrow> pystr) \<Rightarrow> Issue list \<Rightarrow> Message list \<Rightarrow> py_error + Issue list" where
  "group_into_issues lower self_issues msgs =
     (case run_loop lower (initial_state self_issues) msgs of
        Inl e \<Rightarrow> Inl e
      | Inr s \<Rightarrow> finalize_all (issues s))"

section \<open>KPI aggregation (\<open>calculate_kpis\<close>)\<close>

text \<open>
  The entries of the result dictionary that the rates are built from. The rates are
  Python floats; the model computes them as exact rationals. With no issue the function
  returns the dictionary \<open>{"error": "No issues found"}\<close>, which is the \<open>Inl\<close> case.
\<close>

record kpis =
  total_issues :: nat
  resolved_issues :: nat
  pending_issues :: nat
  no_response_issues :: nat
  resolution_rate :: rat
  response_rate :: rat

definition calculate_kpis :: "Issue list \<Rightarrow> string + kpis" where
  "calculate_kpis self_issues =
     (if self_issues = [] then Inl ''No issues found''
      else
        (let total = length self_issues;
             resolved = length (filter (\<lambda>i. status i = ''resolved'') self_issues);
             pending = length (filter (\<lambda>i. status i = ''pending'') self_issues);
             no_response = length (filter (\<lambda>i. status i = ''no_response'') self_issues);
             response_times =
               filter timedelta_truthy (map first_response_time self_issues)
         in Inr \<lparr>total_issues = total,
                 resolved_issues = resolved,
                 pending_issues = pending,
                 no_response_issues = no_response,
                 resolution_rate =
                   (if total > 0 then of_nat resolved / of_nat total * 100 else 0),
                 response_rate =
                   (if total > 0 then of_nat (length response_times) / of_nat total * 100
                    else 0)\<rparr>))"

section \<open>Ticket references (\<open>ticket_pattern\<close>)\<close>

text \<open>
  \<open>re.findall(r'\b\d{7}\b', message)\<close>. The character classes \<open>\d\<close> and \<open>\w\<close> of the
  \<open>re\<close> module are the parameters \<open>isd\<close> and \<open>isw\<close>. \<open>\b\<close> holds at a position where
  exactly one of the two neighbouring characters is a word character, a missing
  neighbour counting as a non-word character.
\<close>

definition char_at :: "'c list \<Rightarrow> nat \<Rightarrow> 'c option" where
  "char_at s p = (if p < length s then Some (s ! p) else None)"

definition is_word_at :: "('c \<Rightarrow> bool) \<Rightarrow> 'c option \<Rightarrow> bool" where
  "is_word_at isw c = (case c of None \<Rightarrow> False | Some x \<Rightarrow> isw x)"

definition word_boundary :: "('c \<Rightarrow> bool) \<Rightarrow> 'c list \<Rightarrow> nat \<Rightarrow> bool" where
  "word_boundary isw s p =
     (is_word_at isw (if p = 0 then None else char_at s (p - 1))
        \<noteq> is_word_at isw (char_at s p))"

text \<open>The pattern matches at position \<open>p\<close>; a match is always 7 characters long.\<close>

definition ticket_match_at :: "('c \<Rightarrow> bool) \<Rightarrow> ('c \<Rightarrow> bool) \<Rightarrow> 'c list \<Rightarrow> nat \<Rightarrow> bool" where
  "ticket_match_at isd isw s p =
     (word_boundary isw s p \<and> p + 7 \<le> length s \<and> list_all isd (take 7 (drop p s)) \<and>
      word_boundary isw s (p + 7))"

text \<open>
  \<open>findall\<close> scans from the left: after a match the search resumes at the end of the
  match, otherwise one position further.
\<close>

function findall_from ::
  "('c \<Rightarrow> bool) \<Rightarrow> ('c \<Rightarrow> bool) \<Rightarrow> 'c list \<Rightarrow> nat \<Rightarrow> 'c list list" where
  "findall_from isd isw s p =
     (if p < length s then
        (if ticket_match_at isd isw s p
         then take 7 (drop p s) # findall_from isd isw s (p + 7)
         else findall_from isd isw s (p + 1))
      else [])"
  by pat_completeness auto
termination
  by (relation "measure (\<lambda>(isd, isw, s, p). length s - p)") auto

text \<open>The equation of \<open>findall_from\<close> calls itself: it is unfolded by hand only.\<close>

declare findall_from.simps [simp del]

definition findall_ticket :: "('c \<Rightarrow> bool) \<Rightarrow> ('c \<Rightarrow> bool) \<Rightarrow> 'c list \<Rightarrow> 'c list list" where
  "findall_ticket isd isw message = findall_from isd isw message 0"

text \<open>The two character classes on ASCII code points, to run the search on ASCII text.\<close>

definition ascii_digit :: "nat \<Rightarrow> bool" where
  "ascii_digit c = (48 \<le> c \<and> c \<le> 57)"

definition ascii_word :: "nat \<Rightarrow> bool" where
  "ascii_word c = (ascii_digit c \<or> (65 \<le> c \<and> c \<le> 90) \<or> (97 \<le> c \<and> c \<le> 122) \<or> c = 95)"

text \<open>
  The reading of the specification: ticket references are the runs of exactly 7 digits
  whose neighbours, where there are any, are not digits.
\<close>

definition digit_bounded_at :: "('c \<Rightarrow> bool) \<Rightarrow> 'c list \<Rightarrow> nat \<Rightarrow> bool" where
  "digit_bounded_at isd s p =
     (p + 7 \<le> length s \<and> list_all isd (take 7 (drop p s)) \<and>
      (p = 0 \<or> \<not> isd (s ! (p - 1))) \<and> (p + 7 = length s \<or> \<not> isd (s ! (p + 7))))"

definition digit_bounded_runs :: "('c \<Rightarrow> bool) \<Rightarrow> 'c list \<Rightarrow> 'c list list" where
  "digit_bounded_runs isd s =
     map (\<lambda>p. take 7 (drop p s)) (filter (digit_bounded_at isd s) [0..<length s])"

text \<open>The same with word characters as the bound, as \<open>\b\<close> has it.\<close>

definition word_bounded_at :: "('c \<Rightarrow> bool) \<Rightarrow> ('c \<Rightarrow> bool) \<Rightarrow> 'c list \<Rightarrow> nat \<Rightarrow> bool" where
  "word_bounded_at isd isw s p =
     (p + 7 \<le> length s \<and> list_all isd (take 7 (drop p s)) \<and>
      (p = 0 \<or> \<not> isw (s ! (p - 1))) \<and> (p + 7 = length s \<or> \<not> isw (s ! (p + 7))))"

definition word_bounded_runs :: "('c \<Rightarrow> bool) \<Rightarrow> ('c \<Rightarrow> bool) \<Rightarrow> 'c list \<Rightarrow> 'c list list" where
  "word_bounded_runs isd isw s =
     map (\<lambda>p. take 7 (drop p s)) (filter (word_bounded_at isd isw s) [0..<length s])"

section \<open>Sample transcripts\<close>

text \<open>
  Small classified messages on which the definitions are run. Their \<open>message_type\<close> is
  the one \<open>classify_message_type\<close> gives for their role and text.
\<close>

definition minutes :: "int \<Rightarrow> int" where
  "minutes n = n * 60000000"

definition sample_message :: "int \<Rightarrow> string \<Rightarrow> string \<Rightarrow> string \<Rightarrow> string \<Rightarrow> Message" where
  "sample_message t who role text intent =
     \<lparr>timestamp = t, sender = asc who, sender_type = role, content = asc text,
      message_type = intent, language = ''english'', has_ticket_id = False,
      ticket_ids = []\<rparr>"

definition report1 :: Message where
  "report1 = sample_message 0 ''amal'' ''customer'' ''port down'' ''issue_report''"

definition report2 :: Message where
  "report2 = sample_message (minutes 1) ''amal'' ''customer'' ''link down'' ''issue_report''"

definition greeting1 :: Message where
  "greeting1 = sample_message 0 ''amal'' ''customer'' ''hello there'' ''general''"

definition reply_same_minute :: Message where
  "reply_same_minute = sample_message 0 ''omar'' ''support'' ''on it'' ''response''"

definition reply_later :: Message where
  "reply_later = sample_message (minutes 3) ''omar'' ''support'' ''on it'' ''response''"

definition resolution1 :: Message where
  "resolution1 = sample_message (minutes 10) ''omar'' ''support'' ''done'' ''resolution''"

definition resolution2 :: Message where
  "resolution2 = sample_message (minutes 20) ''omar'' ''support'' ''welcome'' ''resolution''"

text \<open>The issue that \<open>report1\<close> opens in a fresh run, and the loop state after it.\<close>

definition opened1 :: Issue where
  "opened1 = new_issue ascii_lower 1 report1"

definition state1 :: seg_state where
  "state1 = open_issue ascii_lower (initial_state []) report1"

text \<open>That issue after the resolution \<open>resolution1\<close>, and after the reply \<open>reply_same_minute\<close>.\<close>

definition resolved1 :: Issue where
  "resolved1 = append_message opened1 resolution1"

definition answered1 :: Issue where
  "answered1 = append_message opened1 reply_same_minute"

text \<open>A support message whose intent counts as a first response.\<close>

definition first_response_message :: "Message \<Rightarrow> bool" where
  "first_response_message msg =
     (sender_type msg = ''support'' \<and>
      message_type msg \<in> set [''acknowledgment'', ''response'', ''request_info''])"

section \<open>Invariants of the segmentation loop\<close>

text \<open>
  The current issue, if there is one, has a message and is \<open>open\<close> or \<open>resolved\<close>; the
  issues before it are closed.
\<close>

definition current_ok :: "seg_state \<Rightarrow> bool" where
  "current_ok s =
     (case current_issue s of None \<Rightarrow> True
      | Some c \<Rightarrow> messages c \<noteq> [] \<and> (status c = ''open'' \<or> status c = ''resolved''))"

definition earlier_closed :: "seg_state \<Rightarrow> bool" where
  "earlier_closed s = list_all (\<lambda>x. status x \<noteq> ''open'') (earlier_issues s)"

text \<open>
  The first-response latency of an issue is the one of the first message in it that is
  a first response, and is unset when it holds no such message.
\<close>

definition first_response_recorded :: "Issue \<Rightarrow> bool" where
  "first_response_recorded x =
     (first_response_time x =
        map_option (\<lambda>m. timestamp m - start_time x) (find first_response_message (messages x)))"

section \<open>The classifier is total and role-gated\<close>

text \<open>
  Claim C9. Whatever the text, a customer's message is classified \<open>issue_report\<close>,
  \<open>follow_up\<close> or \<open>general\<close>, a support message \<open>resolution\<close>, \<open>acknowledgment\<close>,
  \<open>request_info\<close> or \<open>response\<close>, and a message of any other role \<open>other\<close>. When no
  keyword group matches, a customer's message is \<open>general\<close> and a support message
  \<open>response\<close>. The classifier has no failing path: it is a total function.
\<close>

theorem classify_role_gated:
  "(role = ''customer'' \<longrightarrow>
      classify_message_type lower role body has_ticket
        \<in> {''issue_report'', ''follow_up'', ''general''}) \<and>
   (role = ''support'' \<longrightarrow>
      classify_message_type lower role body has_ticket
        \<in> {''resolution'', ''acknowledgment'', ''request_info'', ''response''}) \<and>
   (role \<noteq> ''customer'' \<and> role \<noteq> ''support'' \<longrightarrow>
      classify_message_type lower role body has_ticket = ''other'') \<and>
   (role = ''customer'' \<and> \<not> any_in issue_indicators (lower body) \<and> \<not> has_ticket \<and>
      \<not> contains_keywords body follow_up \<longrightarrow>
      classify_message_type lower role body has_ticket = ''general'') \<and>
   (role = ''support'' \<and> \<not> any_in resolution_indicators (lower body) \<and>
      \<not> contains_keywords body acknowledgment \<and>
      \<not> contains_keywords body request_action \<longrightarrow>
      classify_message_type lower role body has_ticket = ''response'')"
  by (simp add: classify_message_type_def Let_def)

theorem classify_role_gated_witness:
  "classify_message_type ascii_lower ''customer'' (asc ''hello there'') False = ''general'' \<and>
   classify_message_type ascii_lower ''support'' (asc ''on it'') False = ''response'' \<and>
   classify_message_type ascii_lower ''unknown'' (asc ''port down'') False = ''other''"
proof -
  have a: "\<not> any_in issue_indicators (ascii_lower (asc ''hello there''))"
    by (simp add: any_in_def issue_indicators_def asc_def ascii_lower_def)
  have b: "\<not> contains_keywords (asc ''hello there'') follow_up"
    by (simp add: contains_keywords_def any_in_def follow_up_def follow_up_arabic_def
          follow_up_english_def asc_def)
  have c: "\<not> any_in resolution_indicators (ascii_lower (asc ''on it''))"
    by (simp add: any_in_def resolution_indicators_def asc_def ascii_lower_def)
  have d: "\<not> contains_keywords (asc ''on it'') acknowledgment"
    by (simp add: contains_keywords_def any_in_def acknowledgment_def
          acknowledgment_arabic_def acknowledgment_english_def asc_def)
  have e: "\<not> contains_keywords (asc ''on it'') request_action"
    by (simp add: contains_keywords_def any_in_def request_action_def
          request_action_arabic_def request_action_english_def asc_def)
  show ?thesis
    using a b c d e
      classify_role_gated [of "''customer''" ascii_lower "asc ''hello there''" False]
      classify_role_gated [of "''support''" ascii_lower "asc ''on it''" False]
      classify_role_gated [of "''unknown''" ascii_lower "asc ''port down''" False]
    by simp
qed

section \<open>Shape of one loop iteration\<close>

lemma issues_Some: "current_issue s = Some c \<Longrightarrow> issues s = earlier_issues s @ [c]"
  by (simp add: issues_def)

lemma issues_None: "current_issue s = None \<Longrightarrow> issues s = earlier_issues s"
  by (simp add: issues_def)

lemma issues_open_issue:
  "issues (open_issue lower s msg) = issues s @ [new_issue lower (issue_counter s) msg]"
  by (simp add: issues_def open_issue_def)

lemma issues_update_current:
  "issues (s\<lparr>current_issue := Some c\<rparr>) = earlier_issues s @ [c]"
  by (simp add: issues_def)

lemma last_timestamp_Inr: "last_timestamp c = Inr t \<Longrightarrow> messages c \<noteq> []"
  by (auto simp: last_timestamp_def split: list.splits)

lemma last_timestamp_nonempty:
  "messages c \<noteq> [] \<Longrightarrow> last_timestamp c = Inr (timestamp (last (messages c)))"
  by (cases "messages c") (simp_all add: last_timestamp_def)

text \<open>What one iteration does to the state, branch by branch.\<close>

lemma step_cases:
  assumes "step lower s msg = Inr (b, s')"
  shows "(b = Skipped \<and> s' = s \<and> current_issue s = None) \<or>
         (b = Dropped \<and> s' = s) \<or>
         (b = Appended \<and> (\<exists>c. current_issue s = Some c \<and> messages c \<noteq> [] \<and>
             \<not> (message_type msg = ''issue_report'' \<and> sender_type msg = ''customer'') \<and>
             s' = s\<lparr>current_issue := Some (append_message c msg)\<rparr>)) \<or>
         (b = Opened \<and> message_type msg = ''issue_report'' \<and> sender_type msg = ''customer'' \<and>
             current_issue s = None \<and> s' = open_issue lower s msg) \<or>
         (b = Opened \<and> message_type msg = ''issue_report'' \<and> sender_type msg = ''customer'' \<and>
             (\<exists>c c'. current_issue s = Some c \<and> close_previous c = Inr c' \<and>
                s' = open_issue lower (s\<lparr>current_issue := Some c'\<rparr>) msg))"
  using assms
  by (auto simp: step_def belongs_to_issue_def dest: last_timestamp_Inr
           split: if_splits option.splits sum.splits)

lemma step_appended:
  assumes "current_issue s = Some c" and "messages c \<noteq> []"
    and "\<not> (message_type msg = ''issue_report'' \<and> sender_type msg = ''customer'')"
    and "belongs_to_issue c (timestamp (last (messages c))) msg"
  shows "step lower s msg = Inr (Appended, s\<lparr>current_issue := Some (append_message c msg)\<rparr>)"
  using assms by (auto simp: step_def last_timestamp_nonempty)

text \<open>The fields of an issue after a message was appended, and after it was closed.\<close>

lemma append_message_fields:
  "messages (append_message c msg) = messages c @ [msg]"
  "start_time (append_message c msg) = start_time c"
  "status (append_message c msg) =
     (if sender_type msg = ''support'' \<and> message_type msg = ''resolution''
      then ''resolved'' else status c)"
  "resolution_time (append_message c msg) =
     (if sender_type msg = ''support'' \<and> message_type msg = ''resolution''
      then Some (timestamp msg - start_time c) else resolution_time c)"
  "end_time (append_message c msg) =
     (if sender_type msg = ''support'' \<and> message_type msg = ''resolution''
      then Some (timestamp msg) else end_time c)"
  "first_response_time (append_message c msg) =
     (if sender_type msg = ''support'' \<and> first_response_time c = None \<and>
         message_type msg \<in> set [''acknowledgment'', ''response'', ''request_info'']
      then Some (timestamp msg - start_time c) else first_response_time c)"
  by (simp_all add: append_message_def track_support_def Let_def)

lemma close_previous_fields:
  assumes "close_previous c = Inr c'"
  shows "messages c' = messages c" "start_time c' = start_time c"
    "first_response_time c' = first_response_time c"
    "resolution_time c' = resolution_time c"
    "status c \<noteq> ''open'' \<Longrightarrow> c' = c"
    "status c = ''open'' \<Longrightarrow> status c' = ''pending''"
  using assms
  by (auto simp: close_previous_def split: if_splits sum.splits)

lemma finalize_issue_fields:
  assumes "finalize_issue x = Inr x'"
  shows "messages x' = messages x" "start_time x' = start_time x"
    "first_response_time x' = first_response_time x"
    "resolution_time x' = resolution_time x"
    "status x \<noteq> ''open'' \<Longrightarrow> x' = x"
    "status x = ''open'' \<Longrightarrow> status x' =
       (if timedelta_truthy (first_response_time x) then ''pending'' else ''no_response'')"
    "status x = ''open'' \<Longrightarrow> end_time x' = Some (timestamp (last (messages x)))"
  using assms
  by (auto simp: finalize_issue_def last_timestamp_def split: if_splits sum.splits list.splits)

text \<open>
  The issue at position \<open>i\<close> of \<open>self.issues\<close> across one iteration: only the current
  issue, at position \<open>length (earlier_issues s)\<close>, can change.
\<close>

lemma step_issue_at:
  assumes "step lower s msg = Inr (b, s')" and "i < length (issues s)"
  shows "i < length (issues s') \<and>
     (if b = Appended \<and> i = length (earlier_issues s)
      then issues s' ! i = append_message (issues s ! i) msg \<and>
           current_issue s = Some (issues s ! i) \<and> messages (issues s ! i) \<noteq> [] \<and>
           \<not> (message_type msg = ''issue_report'' \<and> sender_type msg = ''customer'')
      else if b = Opened \<and> i = length (earlier_issues s)
      then close_previous (issues s ! i) = Inr (issues s' ! i) \<and>
           current_issue s = Some (issues s ! i)
      else issues s' ! i = issues s ! i)"
  using step_cases [OF assms(1)] assms(2)
  by (auto simp: issues_open_issue issues_update_current issues_Some issues_None nth_append)

lemma finalize_all_nth:
  "finalize_all xs = Inr ys \<Longrightarrow>
     length ys = length xs \<and> (\<forall>i < length xs. finalize_issue (xs ! i) = Inr (ys ! i))"
proof (induction xs arbitrary: ys)
  case Nil
  then show ?case by simp
next
  case (Cons x xs)
  then show ?case
    by (auto split: sum.splits simp: nth_Cons split: nat.splits)
qed

section \<open>The reopening branch is dead code\<close>

text \<open>
  Claim C10. No iteration runs the branch that, after a failed continuation test, closes
  the current issue and opens a new one: a customer's \<open>issue_report\<close> is taken by the
  branch at the top of the loop body, and a customer's \<open>general\<close> message always passes
  the continuation test. So whenever an iteration changes the number of issues, it ran
  the top branch, on a customer's \<open>issue_report\<close>.
\<close>

theorem reopen_branch_unreachable:
  "step lower s msg \<noteq> Inr (Reopened, s') \<and>
   (step lower s msg = Inr (b, s') \<and> length (issues s') \<noteq> length (issues s) \<longrightarrow>
      b = Opened \<and> message_type msg = ''issue_report'' \<and> sender_type msg = ''customer'')"
  using step_cases [of lower s msg b s'] step_cases [of lower s msg Reopened s']
  by (auto simp: issues_def)

theorem reopen_branch_unreachable_witness:
  "step ascii_lower (initial_state []) report1
     = Inr (Opened, open_issue ascii_lower (initial_state []) report1) \<and>
   length (issues (open_issue ascii_lower (initial_state []) report1))
     \<noteq> length (issues (initial_state [])) \<and>
   message_type report1 = ''issue_report'' \<and> sender_type report1 = ''customer''"
proof -
  have run: "step ascii_lower (initial_state []) report1
      = Inr (Opened, open_issue ascii_lower (initial_state []) report1)"
    by (simp add: step_def initial_state_def report1_def sample_message_def)
  have len: "length (issues (open_issue ascii_lower (initial_state []) report1))
      \<noteq> length (issues (initial_state []))"
    by (simp add: issues_open_issue)
  show ?thesis
    using run len
      reopen_branch_unreachable [of ascii_lower "initial_state []" report1
        "open_issue ascii_lower (initial_state []) report1" Opened]
    by simp
qed

section \<open>Continuation of the current issue\<close>

lemma state1_current: "current_issue state1 = Some opened1"
  by (simp add: state1_def opened1_def open_issue_def initial_state_def)

lemma state1_earlier: "earlier_issues state1 = []"
  by (simp add: state1_def open_issue_def initial_state_def issues_def)

lemma state1_counter: "issue_counter state1 = 2"
  by (simp add: state1_def open_issue_def initial_state_def)

lemma opened1_fields:
  "messages opened1 = [report1]" "status opened1 = ''open''" "start_time opened1 = 0"
  "issue_ticket_ids opened1 = []" "first_response_time opened1 = None"
  "resolution_time opened1 = None" "end_time opened1 = None"
  by (simp_all add: opened1_def new_issue_def report1_def sample_message_def)

lemma sample_fields:
  "timestamp (sample_message t who role text intent) = t"
  "sender_type (sample_message t who role text intent) = role"
  "message_type (sample_message t who role text intent) = intent"
  "ticket_ids (sample_message t who role text intent) = []"
  by (simp_all add: sample_message_def)

text \<open>
  Claim C1 as stated: a message that passes the continuation test is appended to the
  open issue and starts no new one. It fails for a customer's \<open>issue_report\<close>: one
  minute after \<open>report1\<close> opened an issue, \<open>report2\<close> passes the test (the gap is below
  two hours), yet the loop closes the first issue as \<open>pending\<close> and opens a second one.
\<close>

theorem continuation_report_opens_new_issue:
  "current_issue state1 = Some opened1 \<and> status opened1 = ''open'' \<and>
   belongs_to_issue opened1 (timestamp (last (messages opened1))) report2 \<and>
   step ascii_lower state1 report2 =
     Inr (Opened,
          open_issue ascii_lower
            (state1\<lparr>current_issue := Some (opened1\<lparr>status := ''pending'', end_time := Some 0\<rparr>)\<rparr>)
            report2) \<and>
   issues (open_issue ascii_lower
            (state1\<lparr>current_issue := Some (opened1\<lparr>status := ''pending'', end_time := Some 0\<rparr>)\<rparr>)
            report2) =
     [opened1\<lparr>status := ''pending'', end_time := Some 0\<rparr>, new_issue ascii_lower 2 report2]"
  by (simp add: state1_current state1_earlier state1_counter opened1_fields step_def
        close_previous_def last_timestamp_def belongs_to_issue_def max_gap_def
        timedelta_hours_def minutes_def report1_def report2_def sample_fields
        issues_open_issue issues_update_current)

text \<open>
  Claim C1, amended. While there is a current issue with at least one message, a message
  that is not a customer's \<open>issue_report\<close> and passes the continuation test is appended
  to the current issue, and the list of issues keeps its length. A customer's
  \<open>issue_report\<close> never reaches the continuation test: it closes the current issue, if
  that one is still open, and opens a new issue.
\<close>

theorem continuation_appends_unless_report:
  assumes "current_issue s = Some c" and "messages c \<noteq> []"
  shows "(\<not> (message_type msg = ''issue_report'' \<and> sender_type msg = ''customer'') \<and>
          belongs_to_issue c (timestamp (last (messages c))) msg \<longrightarrow>
            step lower s msg = Inr (Appended, s\<lparr>current_issue := Some (append_message c msg)\<rparr>) \<and>
            messages (append_message c msg) = messages c @ [msg] \<and>
            length (issues (s\<lparr>current_issue := Some (append_message c msg)\<rparr>))
              = length (issues s)) \<and>
         (message_type msg = ''issue_report'' \<and> sender_type msg = ''customer'' \<longrightarrow>
            (\<exists>c'. close_previous c = Inr c' \<and>
               step lower s msg =
                 Inr (Opened, open_issue lower (s\<lparr>current_issue := Some c'\<rparr>) msg) \<and>
               issues (open_issue lower (s\<lparr>current_issue := Some c'\<rparr>) msg)
                 = earlier_issues s @ [c', new_issue lower (issue_counter s) msg]))"
  using assms
  by (auto simp: step_def last_timestamp_nonempty close_previous_def append_message_def
        track_support_def Let_def issues_def open_issue_def)

theorem continuation_appends_unless_report_witness:
  "current_issue state1 = Some opened1 \<and> messages opened1 \<noteq> [] \<and>
   belongs_to_issue opened1 (timestamp (last (messages opened1))) reply_later \<and>
   step ascii_lower state1 reply_later =
     Inr (Appended, state1\<lparr>current_issue := Some (append_message opened1 reply_later)\<rparr>) \<and>
   messages (append_message opened1 reply_later) = [report1, reply_later]"
proof -
  have cur: "current_issue state1 = Some opened1"
    by (rule state1_current)
  have ne: "messages opened1 \<noteq> []"
    by (simp add: opened1_fields)
  have bel: "belongs_to_issue opened1 (timestamp (last (messages opened1))) reply_later"
    by (simp add: belongs_to_issue_def opened1_fields report1_def reply_later_def
          sample_fields max_gap_def timedelta_hours_def minutes_def)
  have ty: "\<not> (message_type reply_later = ''issue_report'' \<and>
               sender_type reply_later = ''customer'')"
    by (simp add: reply_later_def sample_fields)
  show ?thesis
    using continuation_appends_unless_report [OF cur ne, of reply_later ascii_lower]
      cur ne bel ty
    by (simp add: opened1_fields)
qed

section \<open>Messages that arrive without a current issue\<close>

text \<open>
  Claim C2 as stated: without an open issue every customer message opens one. It fails
  for a customer's \<open>general\<close> message at the start of a run: the loop skips it, and the
  run over this single message ends with no issue at all.
\<close>

theorem customer_general_dropped_without_issue:
  "sender_type greeting1 = ''customer'' \<and> message_type greeting1 = ''general'' \<and>
   current_issue (initial_state []) = None \<and>
   step ascii_lower (initial_state []) greeting1 = Inr (Skipped, initial_state []) \<and>
   group_into_issues ascii_lower [] [greeting1] = Inr []"
  by (simp add: group_into_issues_def step_def initial_state_def greeting1_def
        sample_fields issues_def)

text \<open>
  Claim C2, amended. Without a current issue, a customer's message classified
  \<open>issue_report\<close> opens a new issue, appended to the list of issues, in status \<open>open\<close>
  with that message as its only message; every other message, a customer's \<open>follow_up\<close>
  or \<open>general\<close> included, leaves the state unchanged.
\<close>

theorem no_current_issue_step:
  assumes "current_issue s = None"
  shows "step lower s msg =
           (if message_type msg = ''issue_report'' \<and> sender_type msg = ''customer''
            then Inr (Opened, open_issue lower s msg) else Inr (Skipped, s)) \<and>
         issues (open_issue lower s msg) = issues s @ [new_issue lower (issue_counter s) msg] \<and>
         messages (new_issue lower (issue_counter s) msg) = [msg] \<and>
         status (new_issue lower (issue_counter s) msg) = ''open''"
  using assms by (simp add: step_def issues_open_issue new_issue_def)

theorem no_current_issue_step_witness:
  "current_issue (initial_state []) = None \<and>
   step ascii_lower (initial_state []) report1 = Inr (Opened, state1) \<and>
   issues state1 = [opened1] \<and> messages opened1 = [report1]"
proof -
  have none: "current_issue (initial_state []) = None"
    by (simp add: initial_state_def)
  have ty: "message_type report1 = ''issue_report'' \<and> sender_type report1 = ''customer''"
    by (simp add: report1_def sample_fields)
  show ?thesis
    using no_current_issue_step [OF none, of ascii_lower report1] none ty
    by (simp add: state1_def opened1_def initial_state_def issues_def)
qed

section \<open>Resolution time\<close>

lemma step_report1: "step ascii_lower (initial_state []) report1 = Inr (Opened, state1)"
  by (simp add: step_def initial_state_def state1_def report1_def sample_fields)

lemma step_state1_support:
  assumes "sender_type msg = ''support''" and "timestamp msg \<le> 7200000000"
  shows "step ascii_lower state1 msg =
           Inr (Appended, state1\<lparr>current_issue := Some (append_message opened1 msg)\<rparr>)"
proof (rule step_appended [OF state1_current])
  show "messages opened1 \<noteq> []"
    by (simp add: opened1_fields)
  show "\<not> (message_type msg = ''issue_report'' \<and> sender_type msg = ''customer'')"
    using assms(1) by simp
  show "belongs_to_issue opened1 (timestamp (last (messages opened1))) msg"
    using assms(2)
    by (simp add: belongs_to_issue_def opened1_fields report1_def sample_fields
          max_gap_def timedelta_hours_def)
qed

lemma resolved1_fields:
  "messages resolved1 = [report1, resolution1]" "status resolved1 = ''resolved''"
  "resolution_time resolved1 = Some 600000000" "end_time resolved1 = Some 600000000"
  "start_time resolved1 = 0"
  by (simp_all add: resolved1_def append_message_fields opened1_fields resolution1_def
        sample_fields minutes_def)

text \<open>
  Claim C3 as stated: once a resolution has set \<open>resolution_time\<close> and \<open>end_time\<close>, no
  later message changes them. It fails when a second resolution message follows: the
  resolved issue is still the current one, \<open>resolution2\<close> is appended to it ten minutes
  after \<open>resolution1\<close>, and both fields move from 10 to 20 minutes.
\<close>

theorem second_resolution_overwrites:
  "step ascii_lower state1 resolution1 =
     Inr (Appended, state1\<lparr>current_issue := Some resolved1\<rparr>) \<and>
   status resolved1 = ''resolved'' \<and>
   resolution_time resolved1 = Some 600000000 \<and> end_time resolved1 = Some 600000000 \<and>
   step ascii_lower (state1\<lparr>current_issue := Some resolved1\<rparr>) resolution2 =
     Inr (Appended, state1\<lparr>current_issue := Some (append_message resolved1 resolution2)\<rparr>) \<and>
   resolution_time (append_message resolved1 resolution2) = Some 1200000000 \<and>
   end_time (append_message resolved1 resolution2) = Some 1200000000"
proof -
  have first: "step ascii_lower state1 resolution1 =
      Inr (Appended, state1\<lparr>current_issue := Some resolved1\<rparr>)"
    unfolding resolved1_def
    by (rule step_state1_support) (simp_all add: resolution1_def sample_fields minutes_def)
  have "step ascii_lower (state1\<lparr>current_issue := Some resolved1\<rparr>) resolution2 =
      Inr (Appended, (state1\<lparr>current_issue := Some resolved1\<rparr>)
             \<lparr>current_issue := Some (append_message resolved1 resolution2)\<rparr>)"
    by (rule step_appended)
      (simp_all add: resolved1_fields belongs_to_issue_def resolution1_def resolution2_def
         sample_fields max_gap_def timedelta_hours_def minutes_def)
  then have second: "step ascii_lower (state1\<lparr>current_issue := Some resolved1\<rparr>) resolution2 =
      Inr (Appended, state1\<lparr>current_issue := Some (append_message resolved1 resolution2)\<rparr>)"
    by simp
  show ?thesis
    using first second
    by (simp add: resolved1_fields append_message_fields resolution2_def sample_fields
          minutes_def)
qed

text \<open>
  Claim C3, amended. In one iteration the \<open>resolution_time\<close> of an issue changes only
  when a support message classified \<open>resolution\<close> is appended to it, and every such
  message, not only the first, sets \<open>resolution_time\<close> to its timestamp minus the
  issue's \<open>start_time\<close>, \<open>status\<close> to \<open>resolved\<close> and \<open>end_time\<close> to its timestamp. Any
  other iteration keeps \<open>resolution_time\<close>, and keeps \<open>status\<close> and \<open>end_time\<close> of a
  resolved issue; the closing loop keeps \<open>resolution_time\<close> and leaves a resolved issue
  as it is.
\<close>

theorem resolution_time_set_by_each_resolution:
  "(step lower s msg = Inr (b, s') \<and> i < length (issues s) \<longrightarrow>
      (b = Appended \<and> i = length (earlier_issues s) \<and>
       sender_type msg = ''support'' \<and> message_type msg = ''resolution'' \<longrightarrow>
         resolution_time (issues s' ! i) = Some (timestamp msg - start_time (issues s ! i)) \<and>
         status (issues s' ! i) = ''resolved'' \<and>
         end_time (issues s' ! i) = Some (timestamp msg)) \<and>
      (\<not> (b = Appended \<and> i = length (earlier_issues s) \<and>
          sender_type msg = ''support'' \<and> message_type msg = ''resolution'') \<longrightarrow>
         resolution_time (issues s' ! i) = resolution_time (issues s ! i) \<and>
         (status (issues s ! i) = ''resolved'' \<longrightarrow>
            status (issues s' ! i) = ''resolved'' \<and>
            end_time (issues s' ! i) = end_time (issues s ! i)))) \<and>
   (finalize_issue x = Inr x' \<longrightarrow>
      resolution_time x' = resolution_time x \<and> (status x = ''resolved'' \<longrightarrow> x' = x))"
proof (intro conjI impI)
  assume a: "step lower s msg = Inr (b, s') \<and> i < length (issues s)"
  assume r: "b = Appended \<and> i = length (earlier_issues s) \<and>
       sender_type msg = ''support'' \<and> message_type msg = ''resolution''"
  from a r step_issue_at [of lower s msg b s' i]
  have e: "issues s' ! i = append_message (issues s ! i) msg" by simp
  from r have sup: "sender_type msg = ''support''" "message_type msg = ''resolution''"
    by simp_all
  show "resolution_time (issues s' ! i) = Some (timestamp msg - start_time (issues s ! i))"
    by (simp add: e append_message_fields sup)
  show "status (issues s' ! i) = ''resolved''"
    by (simp add: e append_message_fields sup)
  show "end_time (issues s' ! i) = Some (timestamp msg)"
    by (simp add: e append_message_fields sup)
next
  assume a: "step lower s msg = Inr (b, s') \<and> i < length (issues s)"
  assume n: "\<not> (b = Appended \<and> i = length (earlier_issues s) \<and>
       sender_type msg = ''support'' \<and> message_type msg = ''resolution'')"
  from a have st: "step lower s msg = Inr (b, s')" and i: "i < length (issues s)" by simp_all
  show "resolution_time (issues s' ! i) = resolution_time (issues s ! i)"
    using step_issue_at [OF st i] n
    by (auto simp: append_message_fields close_previous_fields split: if_splits)
  assume res: "status (issues s ! i) = ''resolved''"
  show "status (issues s' ! i) = ''resolved''"
    using step_issue_at [OF st i] n res
    by (auto simp: append_message_fields dest: close_previous_fields(5) split: if_splits)
  show "end_time (issues s' ! i) = end_time (issues s ! i)"
    using step_issue_at [OF st i] n res
    by (auto simp: append_message_fields dest: close_previous_fields(5) split: if_splits)
next
  assume f: "finalize_issue x = Inr x'"
  show "resolution_time x' = resolution_time x"
    by (rule finalize_issue_fields(4) [OF f])
  assume "status x = ''resolved''"
  then show "x' = x"
    using finalize_issue_fields(5) [OF f] by simp
qed

theorem resolution_time_set_by_each_resolution_witness:
  "step ascii_lower state1 resolution1 =
     Inr (Appended, state1\<lparr>current_issue := Some resolved1\<rparr>) \<and>
   0 < length (issues state1) \<and> 0 = length (earlier_issues state1) \<and>
   sender_type resolution1 = ''support'' \<and> message_type resolution1 = ''resolution'' \<and>
   resolution_time (issues (state1\<lparr>current_issue := Some resolved1\<rparr>) ! 0) = Some 600000000 \<and>
   status (issues (state1\<lparr>current_issue := Some resolved1\<rparr>) ! 0) = ''resolved'' \<and>
   end_time (issues (state1\<lparr>current_issue := Some resolved1\<rparr>) ! 0) = Some 600000000"
proof -
  have st: "step ascii_lower state1 resolution1 =
      Inr (Appended, state1\<lparr>current_issue := Some resolved1\<rparr>)"
    unfolding resolved1_def
    by (rule step_state1_support) (simp_all add: resolution1_def sample_fields minutes_def)
  have len: "0 < length (issues state1)" "0 = length (earlier_issues state1)"
    by (simp_all add: issues_Some [OF state1_current] state1_earlier)
  have ty: "sender_type resolution1 = ''support''" "message_type resolution1 = ''resolution''"
    by (simp_all add: resolution1_def sample_fields)
  have at0: "issues state1 ! 0 = opened1"
    by (simp add: issues_Some [OF state1_current] state1_earlier)
  show ?thesis
    using st len ty
      resolution_time_set_by_each_resolution [of ascii_lower state1 resolution1 Appended
        "state1\<lparr>current_issue := Some resolved1\<rparr>" 0 opened1 opened1]
    by (simp add: at0 opened1_fields resolution1_def sample_fields minutes_def)
qed

section \<open>Closing the issues that are still open\<close>

lemma answered1_fields:
  "messages answered1 = [report1, reply_same_minute]" "status answered1 = ''open''"
  "first_response_time answered1 = Some 0"
  by (simp_all add: answered1_def append_message_fields opened1_fields
        reply_same_minute_def sample_fields)

text \<open>
  Claim C4: at the end of the stream an open issue that received a first response is
  closed as \<open>pending\<close>, also when the latency is the zero duration. The closing loop
  tests the truth value of \<open>first_response_time\<close>, and \<open>timedelta(0)\<close> is false: a support
  reply in the same minute as the report sets the latency to zero, and the issue ends
  as \<open>no_response\<close>.
\<close>

theorem zero_latency_closed_as_no_response:
  "group_into_issues ascii_lower [] [report1, reply_same_minute] =
     Inr [answered1\<lparr>end_time := Some 0, status := ''no_response''\<rparr>] \<and>
   first_response_time answered1 = Some 0 \<and>
   sender_type reply_same_minute = ''support'' \<and> message_type reply_same_minute = ''response''"
proof -
  have st: "step ascii_lower state1 reply_same_minute =
      Inr (Appended, state1\<lparr>current_issue := Some answered1\<rparr>)"
    unfolding answered1_def
    by (rule step_state1_support) (simp_all add: reply_same_minute_def sample_fields)
  have fin: "finalize_issue answered1 =
      Inr (answered1\<lparr>end_time := Some 0, status := ''no_response''\<rparr>)"
    by (simp add: finalize_issue_def last_timestamp_def answered1_fields timedelta_truthy_def
          reply_same_minute_def sample_fields)
  have ty: "sender_type reply_same_minute = ''support''"
    "message_type reply_same_minute = ''response''"
    by (simp_all add: reply_same_minute_def sample_fields)
  show ?thesis
    by (simp add: group_into_issues_def step_report1 st issues_update_current state1_earlier
          fin answered1_fields ty)
qed

section \<open>A fresh run never fails\<close>

lemma new_issue_fields:
  "messages (new_issue lower n msg) = [msg]" "status (new_issue lower n msg) = ''open''"
  "start_time (new_issue lower n msg) = timestamp msg"
  "first_response_time (new_issue lower n msg) = None"
  "resolution_time (new_issue lower n msg) = None"
  by (simp_all add: new_issue_def)

lemma close_previous_closed: "close_previous c = Inr c' \<Longrightarrow> status c' \<noteq> ''open''"
  by (auto simp: close_previous_def split: if_splits sum.splits)

lemma step_current_ok:
  assumes "step lower s msg = Inr (b, s')" and "current_ok s"
  shows "current_ok s'"
  using step_cases [OF assms(1)] assms(2)
  by (auto simp: current_ok_def open_issue_def new_issue_fields append_message_fields)

lemma step_earlier_closed:
  assumes "step lower s msg = Inr (b, s')" and "current_ok s" and "earlier_closed s"
  shows "earlier_closed s'"
  using step_cases [OF assms(1)] assms(2,3)
  by (auto simp: earlier_closed_def open_issue_def issues_update_current issues_None
        dest: close_previous_closed)

lemma step_total:
  assumes "current_ok s"
  shows "\<exists>b s'. step lower s msg = Inr (b, s')"
  using assms
  by (auto simp: current_ok_def step_def close_previous_def last_timestamp_nonempty
        split: option.splits)

lemma run_loop_total:
  "current_ok s \<Longrightarrow> earlier_closed s \<Longrightarrow>
     \<exists>s'. run_loop lower s msgs = Inr s' \<and> current_ok s' \<and> earlier_closed s'"
proof (induction msgs arbitrary: s)
  case Nil
  then show ?case by simp
next
  case (Cons msg rest)
  from step_total [OF Cons.prems(1)] obtain b s1 where st: "step lower s msg = Inr (b, s1)"
    by blast
  have "current_ok s1" "earlier_closed s1"
    using step_current_ok [OF st Cons.prems(1)] step_earlier_closed [OF st Cons.prems] by simp_all
  from Cons.IH [OF this] show ?case
    by (simp add: st)
qed

lemma run_loop_current_ok:
  "run_loop lower s msgs = Inr s' \<Longrightarrow> current_ok s \<Longrightarrow> current_ok s'"
proof (induction msgs arbitrary: s)
  case Nil
  then show ?case by simp
next
  case (Cons msg rest)
  then show ?case
    by (auto split: sum.splits dest: step_current_ok)
qed

lemma finalize_all_total:
  "list_all (\<lambda>x. status x = ''open'' \<longrightarrow> messages x \<noteq> []) xs \<Longrightarrow> \<exists>ys. finalize_all xs = Inr ys"
proof (induction xs)
  case Nil
  then show ?case by simp
next
  case (Cons x xs)
  then obtain ys where "finalize_all xs = Inr ys" by auto
  moreover from Cons.prems have "\<exists>x'. finalize_issue x = Inr x'"
    by (auto simp: finalize_issue_def last_timestamp_nonempty)
  ultimately show ?case by auto
qed

lemma group_into_issues_total:
  "\<exists>s result. run_loop lower (initial_state []) msgs = Inr s \<and> current_ok s \<and>
      group_into_issues lower [] msgs = Inr result"
proof -
  have "current_ok (initial_state [])" "earlier_closed (initial_state [])"
    by (simp_all add: current_ok_def earlier_closed_def initial_state_def)
  from run_loop_total [OF this, of lower msgs] obtain s where
    s: "run_loop lower (initial_state []) msgs = Inr s" "current_ok s" "earlier_closed s"
    by blast
  have "list_all (\<lambda>x. status x = ''open'' \<longrightarrow> messages x \<noteq> []) (issues s)"
    using s(2,3)
    by (auto simp: issues_def current_ok_def earlier_closed_def list_all_iff split: option.splits)
  from finalize_all_total [OF this] obtain ys where "finalize_all (issues s) = Inr ys" by blast
  with s show ?thesis
    by (auto simp: group_into_issues_def)
qed

section \<open>Properties kept by every issue\<close>

lemma step_preserves_all:
  assumes "step lower s msg = Inr (b, s')" and "\<forall>x\<in>set (issues s). P x"
    and "\<And>c. P c \<Longrightarrow> P (append_message c msg)"
    and "\<And>c c'. P c \<Longrightarrow> close_previous c = Inr c' \<Longrightarrow> P c'"
    and "sender_type msg = ''customer'' \<Longrightarrow> P (new_issue lower (issue_counter s) msg)"
  shows "\<forall>x\<in>set (issues s'). P x"
  using step_cases [OF assms(1)] assms(2-)
  by (auto simp: issues_open_issue issues_update_current issues_Some issues_None)

lemma run_loop_preserves_all:
  assumes "\<And>c msg. P c \<Longrightarrow> P (append_message c msg)"
    and "\<And>c c'. P c \<Longrightarrow> close_previous c = Inr c' \<Longrightarrow> P c'"
    and "\<And>n msg. sender_type msg = ''customer'' \<Longrightarrow> P (new_issue lower n msg)"
  shows "run_loop lower s msgs = Inr s' \<Longrightarrow> \<forall>x\<in>set (issues s). P x \<Longrightarrow>
           \<forall>x\<in>set (issues s'). P x"
proof (induction msgs arbitrary: s)
  case Nil
  then show ?case by simp
next
  case (Cons msg rest)
  from Cons.prems(1) obtain b s1 where st: "step lower s msg = Inr (b, s1)"
    and rest: "run_loop lower s1 rest = Inr s'"
    by (auto split: sum.splits)
  have "\<forall>x\<in>set (issues s1). P x"
    by (rule step_preserves_all [OF st Cons.prems(2)]) (auto intro: assms)
  from Cons.IH [OF rest this] show ?case .
qed

lemma finalize_all_preserves:
  assumes "\<And>x x'. P x \<Longrightarrow> finalize_issue x = Inr x' \<Longrightarrow> P x'"
  shows "finalize_all xs = Inr ys \<Longrightarrow> \<forall>x\<in>set xs. P x \<Longrightarrow> \<forall>y\<in>set ys. P y"
proof (induction xs arbitrary: ys)
  case Nil
  then show ?case by simp
next
  case (Cons x xs)
  then show ?case
    by (auto split: sum.splits intro: assms)
qed

section \<open>First-response latency\<close>

lemma find_snoc:
  "find P (xs @ [y]) = (case find P xs of None \<Rightarrow> (if P y then Some y else None) | Some x \<Rightarrow> Some x)"
  by (induction xs) simp_all

lemma recorded_append:
  "first_response_recorded c \<Longrightarrow> first_response_recorded (append_message c msg)"
  by (auto simp: first_response_recorded_def append_message_fields find_snoc
        first_response_message_def split: option.splits)

lemma recorded_close:
  "first_response_recorded c \<Longrightarrow> close_previous c = Inr c' \<Longrightarrow> first_response_recorded c'"
  by (simp add: first_response_recorded_def close_previous_fields)

lemma recorded_new:
  "sender_type msg = ''customer'' \<Longrightarrow> first_response_recorded (new_issue lower n msg)"
  by (simp add: first_response_recorded_def new_issue_fields first_response_message_def)

lemma recorded_finalize:
  "first_response_recorded x \<Longrightarrow> finalize_issue x = Inr x' \<Longrightarrow> first_response_recorded x'"
  by (simp add: first_response_recorded_def finalize_issue_fields)

lemma step_first_response_kept:
  assumes "step lower s msg = Inr (b, s')" and "i < length (issues s)"
  shows "(first_response_time (issues s ! i) = Some d \<longrightarrow>
            first_response_time (issues s' ! i) = Some d) \<and>
         (\<exists>ms. messages (issues s' ! i) = messages (issues s ! i) @ ms)"
  using step_issue_at [OF assms]
  by (auto simp: append_message_fields close_previous_fields split: if_splits)

lemma step_reply_later:
  "step ascii_lower state1 reply_later =
     Inr (Appended, state1\<lparr>current_issue := Some (append_message opened1 reply_later)\<rparr>)"
  by (rule step_state1_support) (simp_all add: reply_later_def sample_fields minutes_def)

text \<open>
  Claim C5. In a run of the segmentation over any message list, which never fails,
  every issue has, during the loop and after the closing loop, as
  \<open>first_response_time\<close> the timestamp of the first support message appended to it
  with intent \<open>acknowledgment\<close>, \<open>response\<close> or \<open>request_info\<close> minus its \<open>start_time\<close>,
  and no \<open>first_response_time\<close> when there is no such message. An iteration only
  appends to the messages of an issue and never changes a \<open>first_response_time\<close> that
  is set; neither does the closing loop.
\<close>

theorem first_response_time_set_once:
  "(\<exists>s result. run_loop lower (initial_state []) msgs = Inr s \<and>
       group_into_issues lower [] msgs = Inr result \<and>
       (\<forall>x \<in> set (issues s) \<union> set result.
          first_response_time x =
            map_option (\<lambda>m. timestamp m - start_time x)
              (find first_response_message (messages x)))) \<and>
   (step lower s0 msg = Inr (b, s1) \<and> i < length (issues s0) \<longrightarrow>
      (first_response_time (issues s0 ! i) = Some d \<longrightarrow>
         first_response_time (issues s1 ! i) = Some d) \<and>
      (\<exists>ms. messages (issues s1 ! i) = messages (issues s0 ! i) @ ms)) \<and>
   (finalize_issue x0 = Inr x1 \<longrightarrow> first_response_time x1 = first_response_time x0)"
proof (intro conjI)
  from group_into_issues_total [of lower msgs] obtain s result where
    s: "run_loop lower (initial_state []) msgs = Inr s"
    and g: "group_into_issues lower [] msgs = Inr result"
    by blast
  have a: "\<forall>x\<in>set (issues s). first_response_recorded x"
    by (rule run_loop_preserves_all [where P = first_response_recorded, OF _ _ _ s])
       (auto intro: recorded_append recorded_close recorded_new
             simp: initial_state_def issues_def)
  from g s have f: "finalize_all (issues s) = Inr result"
    by (simp add: group_into_issues_def)
  have b: "\<forall>y\<in>set result. first_response_recorded y"
    by (rule finalize_all_preserves [where P = first_response_recorded, OF _ f a])
       (rule recorded_finalize)
  from a b s g
  show "\<exists>s result. run_loop lower (initial_state []) msgs = Inr s \<and>
       group_into_issues lower [] msgs = Inr result \<and>
       (\<forall>x \<in> set (issues s) \<union> set result.
          first_response_time x =
            map_option (\<lambda>m. timestamp m - start_time x)
              (find first_response_message (messages x)))"
    by (auto simp: first_response_recorded_def)
next
  show "step lower s0 msg = Inr (b, s1) \<and> i < length (issues s0) \<longrightarrow>
      (first_response_time (issues s0 ! i) = Some d \<longrightarrow>
         first_response_time (issues s1 ! i) = Some d) \<and>
      (\<exists>ms. messages (issues s1 ! i) = messages (issues s0 ! i) @ ms)"
    using step_first_response_kept [of lower s0 msg b s1 i d] by blast
next
  show "finalize_issue x0 = Inr x1 \<longrightarrow> first_response_time x1 = first_response_time x0"
    by (auto dest: finalize_issue_fields(3))
qed


theorem first_response_time_set_once_witness:
  "group_into_issues ascii_lower [] [report1, reply_later] =
     Inr [(append_message opened1 reply_later)
            \<lparr>end_time := Some 180000000, status := ''pending''\<rparr>] \<and>
   find first_response_message [report1, reply_later] = Some reply_later \<and>
   first_response_time
     ((append_message opened1 reply_later)\<lparr>end_time := Some 180000000, status := ''pending''\<rparr>)
     = Some 180000000"
proof -
  have ts: "timestamp reply_later = 180000000"
    by (simp add: reply_later_def sample_fields minutes_def)
  have fields: "messages (append_message opened1 reply_later) = [report1, reply_later]"
    "status (append_message opened1 reply_later) = ''open''"
    "first_response_time (append_message opened1 reply_later) = Some 180000000"
    "start_time (append_message opened1 reply_later) = 0"
    by (simp_all add: append_message_fields opened1_fields reply_later_def sample_fields
          minutes_def)
  have fin: "finalize_issue (append_message opened1 reply_later) =
      Inr ((append_message opened1 reply_later)
             \<lparr>end_time := Some 180000000, status := ''pending''\<rparr>)"
    by (simp add: finalize_issue_def last_timestamp_def fields timedelta_truthy_def ts)
  have run: "group_into_issues ascii_lower [] [report1, reply_later] =
      Inr [(append_message opened1 reply_later)
             \<lparr>end_time := Some 180000000, status := ''pending''\<rparr>]"
    by (simp add: group_into_issues_def step_report1 step_reply_later issues_update_current
          state1_earlier fin)
  have fnd: "find first_response_message [report1, reply_later] = Some reply_later"
    by (simp add: first_response_message_def report1_def reply_later_def sample_fields)
  from first_response_time_set_once [of ascii_lower "[report1, reply_later]"]
  obtain s result where "group_into_issues ascii_lower [] [report1, reply_later] = Inr result"
    and all: "\<forall>x \<in> set (issues s) \<union> set result.
          first_response_time x =
            map_option (\<lambda>m. timestamp m - start_time x)
              (find first_response_message (messages x))"
    by blast
  with run have "result = [(append_message opened1 reply_later)
             \<lparr>end_time := Some 180000000, status := ''pending''\<rparr>]"
    by simp
  with all have "first_response_time
     ((append_message opened1 reply_later)\<lparr>end_time := Some 180000000, status := ''pending''\<rparr>)
     = map_option (\<lambda>m. timestamp m - 0) (find first_response_message [report1, reply_later])"
    by (simp add: fields)
  then show ?thesis
    using run fnd by (simp add: ts)
qed

section \<open>Status only moves forward\<close>

lemma step_status_stable:
  assumes "step lower s msg = Inr (b, s')" and "current_ok s"
    and "i < length (issues s)" and "status (issues s ! i) \<noteq> ''open''"
  shows "i < length (issues s') \<and> status (issues s' ! i) = status (issues s ! i)"
proof -
  note at = step_issue_at [OF assms(1,3)]
  show ?thesis
  proof (cases "b = Appended \<and> i = length (earlier_issues s)")
    case True
    with at have e: "issues s' ! i = append_message (issues s ! i) msg"
      and c: "current_issue s = Some (issues s ! i)" and len: "i < length (issues s')"
      by simp_all
    from c assms(2,4) have "status (issues s ! i) = ''resolved''"
      by (simp add: current_ok_def)
    with e len show ?thesis
      by (simp add: append_message_fields)
  next
    case False
    note notapp = this
    show ?thesis
    proof (cases "b = Opened \<and> i = length (earlier_issues s)")
      case True
      with at notapp have "close_previous (issues s ! i) = Inr (issues s' ! i)"
        and len: "i < length (issues s')"
        by simp_all
      from close_previous_fields(5) [OF this(1) assms(4)] len show ?thesis
        by simp
    next
      case False
      with at notapp show ?thesis by simp
    qed
  qed
qed

lemma step_status_forward:
  assumes "step lower s msg = Inr (b, s')" and "i < length (issues s)"
    and "status (issues s ! i) = ''open''"
  shows "status (issues s' ! i) \<in> {''open'', ''pending'', ''resolved''}"
  using step_issue_at [OF assms(1,2)] assms(3)
  by (auto simp: append_message_fields dest: close_previous_fields(6) split: if_splits)

lemma run_loop_status_stable:
  "run_loop lower s msgs = Inr s' \<Longrightarrow> current_ok s \<Longrightarrow> i < length (issues s) \<Longrightarrow>
     status (issues s ! i) \<noteq> ''open'' \<Longrightarrow>
     i < length (issues s') \<and> status (issues s' ! i) = status (issues s ! i)"
proof (induction msgs arbitrary: s)
  case Nil
  then show ?case by simp
next
  case (Cons msg rest)
  from Cons.prems(1) obtain b s1 where st: "step lower s msg = Inr (b, s1)"
    and rest: "run_loop lower s1 rest = Inr s'"
    by (auto split: sum.splits)
  from step_status_stable [OF st Cons.prems(2,3,4)]
  have i1: "i < length (issues s1)" and same: "status (issues s1 ! i) = status (issues s ! i)"
    by simp_all
  have ok1: "current_ok s1"
    by (rule step_current_ok [OF st Cons.prems(2)])
  from Cons.IH [OF rest ok1 i1] same Cons.prems(4) show ?case
    by simp
qed

lemma initial_state_ok: "current_ok (initial_state self_issues)"
  by (simp add: current_ok_def initial_state_def)

lemma step_resolution1:
  "step ascii_lower state1 resolution1 = Inr (Appended, state1\<lparr>current_issue := Some resolved1\<rparr>)"
  unfolding resolved1_def
  by (rule step_state1_support) (simp_all add: resolution1_def sample_fields minutes_def)

lemma step_resolution2:
  "step ascii_lower (state1\<lparr>current_issue := Some resolved1\<rparr>) resolution2 =
     Inr (Appended, state1\<lparr>current_issue := Some (append_message resolved1 resolution2)\<rparr>)"
proof -
  have "step ascii_lower (state1\<lparr>current_issue := Some resolved1\<rparr>) resolution2 =
      Inr (Appended, (state1\<lparr>current_issue := Some resolved1\<rparr>)
             \<lparr>current_issue := Some (append_message resolved1 resolution2)\<rparr>)"
    by (rule step_appended)
      (simp_all add: resolved1_fields belongs_to_issue_def resolution1_def resolution2_def
         sample_fields max_gap_def timedelta_hours_def minutes_def)
  then show ?thesis by simp
qed

text \<open>
  Claim C6. An issue is created with status \<open>open\<close>. From \<open>open\<close> an iteration of the
  loop leaves it \<open>open\<close> or moves it to \<open>pending\<close> or \<open>resolved\<close>, and the closing loop
  moves it to \<open>pending\<close> or \<open>no_response\<close>. At any point of a run, an issue whose status
  is no longer \<open>open\<close> keeps that status through all later messages and through the
  closing loop.
\<close>

theorem status_only_moves_forward:
  "(run_loop lower (initial_state self_issues) earlier_msgs = Inr s \<and>
    run_loop lower s later_msgs = Inr s' \<and>
    i < length (issues s) \<and> status (issues s ! i) \<noteq> ''open'' \<longrightarrow>
      i < length (issues s') \<and> status (issues s' ! i) = status (issues s ! i) \<and>
      (\<forall>result. finalize_all (issues s') = Inr result \<longrightarrow>
         status (result ! i) = status (issues s ! i))) \<and>
   (step lower s msg = Inr (b, s') \<and> i < length (issues s) \<and>
    status (issues s ! i) = ''open'' \<longrightarrow>
      status (issues s' ! i) \<in> {''open'', ''pending'', ''resolved''}) \<and>
   (finalize_issue x = Inr x' \<and> status x = ''open'' \<longrightarrow>
      status x' \<in> {''pending'', ''no_response''}) \<and>
   status (new_issue lower n msg) = ''open''"
proof (intro conjI impI allI)
  assume a: "run_loop lower (initial_state self_issues) earlier_msgs = Inr s \<and>
    run_loop lower s later_msgs = Inr s' \<and>
    i < length (issues s) \<and> status (issues s ! i) \<noteq> ''open''"
  then have ok: "current_ok s"
    using run_loop_current_ok [OF _ initial_state_ok] by blast
  from a run_loop_status_stable [OF _ ok, of lower later_msgs s' i]
  have st: "i < length (issues s') \<and> status (issues s' ! i) = status (issues s ! i)"
    by blast
  from st show "i < length (issues s')" by simp
  from st show "status (issues s' ! i) = status (issues s ! i)" by simp
  fix result
  assume f: "finalize_all (issues s') = Inr result"
  from finalize_all_nth [OF f] st
  have "finalize_issue (issues s' ! i) = Inr (result ! i)" by simp
  from finalize_issue_fields(5) [OF this] st a
  show "status (result ! i) = status (issues s ! i)" by simp
next
  assume "step lower s msg = Inr (b, s') \<and> i < length (issues s) \<and>
    status (issues s ! i) = ''open''"
  then show "status (issues s' ! i) \<in> {''open'', ''pending'', ''resolved''}"
    using step_status_forward [of lower s msg b s' i] by blast
next
  assume "finalize_issue x = Inr x' \<and> status x = ''open''"
  then show "status x' \<in> {''pending'', ''no_response''}"
    using finalize_issue_fields(6) [of x x'] by auto
next
  show "status (new_issue lower n msg) = ''open''"
    by (simp add: new_issue_fields)
qed

theorem status_only_moves_forward_witness:
  "run_loop ascii_lower (initial_state []) [report1, resolution1]
     = Inr (state1\<lparr>current_issue := Some resolved1\<rparr>) \<and>
   run_loop ascii_lower (state1\<lparr>current_issue := Some resolved1\<rparr>) [resolution2]
     = Inr (state1\<lparr>current_issue := Some (append_message resolved1 resolution2)\<rparr>) \<and>
   0 < length (issues (state1\<lparr>current_issue := Some resolved1\<rparr>)) \<and>
   status (issues (state1\<lparr>current_issue := Some resolved1\<rparr>) ! 0) = ''resolved'' \<and>
   status (issues (state1\<lparr>current_issue := Some (append_message resolved1 resolution2)\<rparr>) ! 0)
     = ''resolved''"
proof -
  have r1: "run_loop ascii_lower (initial_state []) [report1, resolution1]
      = Inr (state1\<lparr>current_issue := Some resolved1\<rparr>)"
    by (simp add: step_report1 step_resolution1)
  have r2: "run_loop ascii_lower (state1\<lparr>current_issue := Some resolved1\<rparr>) [resolution2]
      = Inr (state1\<lparr>current_issue := Some (append_message resolved1 resolution2)\<rparr>)"
    by (simp add: step_resolution2)
  have at0: "issues (state1\<lparr>current_issue := Some resolved1\<rparr>) ! 0 = resolved1"
    "0 < length (issues (state1\<lparr>current_issue := Some resolved1\<rparr>))"
    by (simp_all add: issues_update_current state1_earlier)
  have res: "status resolved1 \<noteq> ''open''" "status resolved1 = ''resolved''"
    by (simp_all add: resolved1_fields)
  show ?thesis
    using r1 r2 at0 res
      status_only_moves_forward [of ascii_lower "[]" "[report1, resolution1]"
        "state1\<lparr>current_issue := Some resolved1\<rparr>" "[resolution2]"
        "state1\<lparr>current_issue := Some (append_message resolved1 resolution2)\<rparr>" 0]
    by simp
qed

section \<open>Rates of the KPI aggregation\<close>

lemma rate_bounds:
  fixes k n :: nat
  assumes "k \<le> n" and "0 < n"
  shows "0 \<le> (of_nat k / of_nat n * 100 :: rat) \<and> (of_nat k / of_nat n * 100 :: rat) \<le> 100"
proof -
  define q :: rat where "q = of_nat k / of_nat n"
  have "(of_nat k :: rat) \<le> of_nat n" using assms(1) by simp
  moreover have "(0 :: rat) < of_nat n" using assms(2) by simp
  ultimately have q1: "q \<le> 1"
    unfolding q_def by (simp add: divide_le_eq_1)
  have q0: "0 \<le> q"
    unfolding q_def by simp
  have "0 \<le> q * 100"
    using q0 by simp
  moreover have "q * 100 \<le> 100"
    using mult_right_mono [OF q1, of 100] by simp
  ultimately show ?thesis
    unfolding q_def by blast
qed

text \<open>
  Claim C7 as stated: with an empty issue list both rates are 0. The function returns
  before any rate is computed: the result is the dictionary with the single key
  \<open>error\<close>, not a KPI record with rates 0.
\<close>

theorem empty_issue_list_gives_error:
  "calculate_kpis [] = Inl ''No issues found'' \<and>
   calculate_kpis [] \<noteq>
     Inr \<lparr>total_issues = 0, resolved_issues = 0, pending_issues = 0, no_response_issues = 0,
          resolution_rate = 0, response_rate = 0\<rparr>"
  by (simp add: calculate_kpis_def)

text \<open>
  Claim C7, amended. For a non-empty issue list the aggregation returns a KPI record
  whose resolution rate and response rate lie between 0 and 100; they are the share of
  resolved issues and the share of issues with a true (set and non-zero)
  \<open>first_response_time\<close>, times 100. For the empty list it returns the error result
  \<open>No issues found\<close> without dividing.
\<close>

theorem rates_bounded_unless_empty:
  "(self_issues \<noteq> [] \<longrightarrow>
      (\<exists>k. calculate_kpis self_issues = Inr k \<and>
         0 \<le> resolution_rate k \<and> resolution_rate k \<le> 100 \<and>
         0 \<le> response_rate k \<and> response_rate k \<le> 100 \<and>
         resolution_rate k =
           of_nat (length (filter (\<lambda>i. status i = ''resolved'') self_issues))
             / of_nat (length self_issues) * 100 \<and>
         response_rate k =
           of_nat (length (filter (\<lambda>i. timedelta_truthy (first_response_time i)) self_issues))
             / of_nat (length self_issues) * 100)) \<and>
   calculate_kpis [] = Inl ''No issues found''"
proof (intro conjI impI)
  assume ne: "self_issues \<noteq> []"
  then have pos: "0 < length self_issues" by simp
  have a: "length (filter (\<lambda>i. status i = ''resolved'') self_issues) \<le> length self_issues"
    by (rule length_filter_le)
  have b: "length (filter timedelta_truthy (map first_response_time self_issues))
             \<le> length self_issues"
    using length_filter_le [of timedelta_truthy "map first_response_time self_issues"] by simp
  have c: "length (filter timedelta_truthy (map first_response_time self_issues)) =
       length (filter (\<lambda>i. timedelta_truthy (first_response_time i)) self_issues)"
    by (simp add: filter_map comp_def)
  show "\<exists>k. calculate_kpis self_issues = Inr k \<and>
         0 \<le> resolution_rate k \<and> resolution_rate k \<le> 100 \<and>
         0 \<le> response_rate k \<and> response_rate k \<le> 100 \<and>
         resolution_rate k =
           of_nat (length (filter (\<lambda>i. status i = ''resolved'') self_issues))
             / of_nat (length self_issues) * 100 \<and>
         response_rate k =
           of_nat (length (filter (\<lambda>i. timedelta_truthy (first_response_time i)) self_issues))
             / of_nat (length self_issues) * 100"
    using ne pos rate_bounds [OF a pos] rate_bounds [OF b pos] c
    by (simp add: calculate_kpis_def Let_def)
next
  show "calculate_kpis [] = Inl ''No issues found''"
    by (simp add: calculate_kpis_def)
qed


theorem rates_bounded_unless_empty_witness:
  "[resolved1] \<noteq> [] \<and>
   calculate_kpis [resolved1] =
     Inr \<lparr>total_issues = 1, resolved_issues = 1, pending_issues = 0, no_response_issues = 0,
          resolution_rate = 100, response_rate = 0\<rparr>"
proof -
  have frt: "first_response_time resolved1 = None"
    by (simp add: resolved1_def append_message_fields opened1_fields resolution1_def
          sample_fields)
  have ev: "calculate_kpis [resolved1] =
     Inr \<lparr>total_issues = 1, resolved_issues = 1, pending_issues = 0, no_response_issues = 0,
          resolution_rate = 100, response_rate = 0\<rparr>"
    by (simp add: calculate_kpis_def Let_def resolved1_fields frt timedelta_truthy_def)
  show ?thesis
    using ev rates_bounded_unless_empty [of "[resolved1]"] by simp
qed

section \<open>Ticket references are word-bounded\<close>

lemma digits_nth:
  assumes "list_all isd (take 7 (drop p s))" and "p + 7 \<le> length s" and "j < 7"
  shows "isd (s ! (p + j))"
proof -
  have "j < length (take 7 (drop p s))" using assms(2,3) by simp
  with assms(1) have "isd (take 7 (drop p s) ! j)"
    by (simp add: list_all_length)
  with assms(2,3) show ?thesis by simp
qed

lemma match_iff_word_bounded:
  assumes dw: "\<forall>c. isd c \<longrightarrow> isw c"
  shows "ticket_match_at isd isw s p = word_bounded_at isd isw s p"
proof (cases "p + 7 \<le> length s \<and> list_all isd (take 7 (drop p s))")
  case False
  then show ?thesis
    by (auto simp: ticket_match_at_def word_bounded_at_def)
next
  case True
  then have len: "p + 7 \<le> length s" and all: "list_all isd (take 7 (drop p s))"
    by simp_all
  from digits_nth [OF all len, of 0] dw have w0: "isw (s ! p)" by simp
  from digits_nth [OF all len, of 6] dw have w6: "isw (s ! (p + 6))" by simp
  have b0: "word_boundary isw s p = (p = 0 \<or> \<not> isw (s ! (p - 1)))"
    using len w0 by (auto simp: word_boundary_def is_word_at_def char_at_def)
  have w6': "isw (s ! (6 + p))" using w6 by (simp add: add.commute)
  have b7: "word_boundary isw s (p + 7) = (p + 7 = length s \<or> \<not> isw (s ! (p + 7)))"
    using len w6' by (auto simp: word_boundary_def is_word_at_def char_at_def)
  show ?thesis
    using len all by (simp add: ticket_match_at_def word_bounded_at_def b0 b7)
qed

lemma no_match_inside:
  assumes dw: "\<forall>c. isd c \<longrightarrow> isw c"
    and m: "word_bounded_at isd isw s p" and q: "p < q" "q < p + 7"
  shows "\<not> word_bounded_at isd isw s q"
proof
  assume "word_bounded_at isd isw s q"
  with q have nw: "\<not> isw (s ! (q - 1))"
    by (auto simp: word_bounded_at_def)
  from m have len: "p + 7 \<le> length s" and all: "list_all isd (take 7 (drop p s))"
    by (simp_all add: word_bounded_at_def)
  from q have "q - 1 - p < 7" by simp
  from digits_nth [OF all len this] q have "isd (s ! (q - 1))" by simp
  with dw nw show False by blast
qed

lemma filter_after_match:
  assumes dw: "\<forall>c. isd c \<longrightarrow> isw c" and m: "word_bounded_at isd isw s p"
  shows "filter (word_bounded_at isd isw s) [p..<length s] =
           p # filter (word_bounded_at isd isw s) [p + 7..<length s]"
proof -
  from m have len: "p + 7 \<le> length s" by (simp add: word_bounded_at_def)
  then obtain k where k: "length s = p + 7 + k"
    using le_iff_add by blast
  have "[p..<p + 7 + k] = [p..<p + 7] @ [p + 7..<p + 7 + k]"
    by (rule upt_add_eq_append) simp
  moreover have "[p..<p + 7] = p # [p + 1..<p + 7]"
    by (simp add: upt_conv_Cons)
  ultimately have split: "[p..<length s] = p # [p + 1..<p + 7] @ [p + 7..<length s]"
    by (simp add: k)
  have "filter (word_bounded_at isd isw s) [p + 1..<p + 7] = []"
    using no_match_inside [OF dw m] by (auto simp: filter_empty_conv)
  with m show ?thesis
    by (simp add: split)
qed

lemma findall_from_eq:
  "\<forall>c. isd c \<longrightarrow> isw c \<Longrightarrow>
     findall_from isd isw s p =
       map (\<lambda>q. take 7 (drop q s)) (filter (word_bounded_at isd isw s) [p..<length s])"
proof (induction isd isw s p rule: findall_from.induct)
  case (1 isd isw s p)
  note dw = "1.prems"
  show ?case
  proof (cases "p < length s")
    case False
    then show ?thesis
      by (subst findall_from.simps) simp
  next
    case True
    show ?thesis
    proof (cases "ticket_match_at isd isw s p")
      case m: True
      then have w: "word_bounded_at isd isw s p"
        by (simp add: match_iff_word_bounded [OF dw])
      have "findall_from isd isw s p = take 7 (drop p s) # findall_from isd isw s (p + 7)"
        using True m by (subst findall_from.simps) simp
      also have "findall_from isd isw s (p + 7) =
          map (\<lambda>q. take 7 (drop q s)) (filter (word_bounded_at isd isw s) [p + 7..<length s])"
        by (rule "1.IH"(1) [OF True m dw])
      finally show ?thesis
        by (simp add: filter_after_match [OF dw w])
    next
      case n: False
      then have w: "\<not> word_bounded_at isd isw s p"
        by (simp add: match_iff_word_bounded [OF dw])
      have "findall_from isd isw s p = findall_from isd isw s (p + 1)"
        using True n by (subst findall_from.simps) simp
      also have "\<dots> =
          map (\<lambda>q. take 7 (drop q s)) (filter (word_bounded_at isd isw s) [p + 1..<length s])"
        by (rule "1.IH"(2) [OF True n dw])
      finally show ?thesis
        using True w by (simp add: upt_conv_Cons)
    qed
  qed
qed

lemma ascii_dw: "\<forall>c. ascii_digit c \<longrightarrow> ascii_word c"
  by (simp add: ascii_word_def)

lemma upt8: "[0..<8] = [0, 1, 2, 3, 4, 5, 6, 7]"
  by (simp add: upt_rec)

text \<open>
  Claim C8 as stated: the ticket references are the runs of exactly 7 digits bounded by
  non-digits, so a run next to a letter counts. In \<open>a1234567\<close> the run is bounded by a
  non-digit and the end of the text, yet the search finds nothing: between the letter
  and the first digit there is no word boundary.
\<close>

theorem letter_adjacent_run_not_found:
  "digit_bounded_runs ascii_digit (asc ''a1234567'') = [asc ''1234567''] \<and>
   findall_ticket ascii_digit ascii_word (asc ''a1234567'') = []"
proof -
  have a: "digit_bounded_runs ascii_digit (asc ''a1234567'') = [asc ''1234567'']"
    by (simp add: digit_bounded_runs_def digit_bounded_at_def asc_def ascii_digit_def upt8)
  have b: "findall_ticket ascii_digit ascii_word (asc ''a1234567'') = []"
    by (simp add: findall_ticket_def findall_from_eq [OF ascii_dw] asc_def upt8
          word_bounded_at_def ascii_word_def ascii_digit_def)
  from a b show ?thesis by simp
qed

text \<open>
  Claim C8, amended. Provided every digit is a word character, as in \<open>re\<close>, the ticket
  references found in a message are, in order, exactly the runs of exactly 7 digits
  that have no word character (letter, digit or underscore) right before or right
  after them.
\<close>

theorem ticket_refs_word_bounded:
  assumes "\<forall>c. isd c \<longrightarrow> isw c"
  shows "findall_ticket isd isw message = word_bounded_runs isd isw message"
  by (simp add: findall_ticket_def word_bounded_runs_def findall_from_eq [OF assms])

theorem ticket_refs_word_bounded_witness:
  "findall_ticket ascii_digit ascii_word (asc ''id 1234567'') = [asc ''1234567'']"
proof -
  have u: "[0..<10] = [0, 1, 2, 3, 4, 5, 6, 7, 8, 9]"
    by (simp add: upt_rec)
  have w: "word_bounded_runs ascii_digit ascii_word (asc ''id 1234567'') = [asc ''1234567'']"
    by (simp add: word_bounded_runs_def asc_def u word_bounded_at_def ascii_word_def
          ascii_digit_def)
  show ?thesis
    using ticket_refs_word_bounded [OF ascii_dw, of "asc ''id 1234567''"] w
    by simp
qed

end
